theory Spec2Isabelle
  imports Main "HOL-Library.Word" "HOL-Library.Sublist"
begin

section \<open>Go vocabulary shared by the two command files\<close>

type_synonym uint64 = "64 word"

text \<open>
  A Go \<open>error\<close> value is compared by identity (\<open>err == io.EOF\<close>,
  \<open>err == cmds.ErrRcvdError\<close>) and read through \<open>err.Error()\<close>. The model keeps both:
  which sentinel the value is, and the text its \<open>Error()\<close> method returns.
\<close>

datatype err_ident = io_EOF | ErrRcvdError | other_error

record go_error =
  err_ident :: err_ident
  err_Error :: string

text \<open>
  \<open>cmdsutil.ErrorType\<close> and \<open>cmdsutil.Error\<close> belong to the commands library, outside
  these sources. The commands name only \<open>ErrNormal\<close>; every other code is passed through
  unread and is kept as \<open>ErrOther n\<close>. Of a \<open>cmdsutil.Error\<close> they read \<open>Message\<close> and
  \<open>Code\<close>.
\<close>

datatype ErrorType = ErrNormal | ErrOther nat

record cmds_Error =
  Message :: string
  Code :: ErrorType

text \<open>The first argument of \<open>re.SetError\<close> is an \<open>interface{}\<close>.\<close>

datatype err_arg =
  ErrString string
| ErrValue go_error
| ErrCmds "cmds_Error option"

text \<open>
  A \<open>cmds.Response\<close> as the PostRun goroutines use it: \<open>res.Length()\<close>, the outcome of
  the k-th call of \<open>res.Next()\<close> (a value, or the error of a failed pull), and the pointer
  \<open>res.Error()\<close> returns (\<open>None\<close> is nil).
\<close>

record 'v response =
  res_Length :: uint64
  res_Next :: "nat \<Rightarrow> 'v + go_error"
  res_Error :: "cmds_Error option"

text \<open>
  Modelled from the spec: \<open>progressBarForReader\<close> is a function of this repository that is
  not among these sources. The spec describes its result as a progress-tracking view over
  the reader that reports bytes transferred over a total; the view is kept as the reader
  together with that total.
\<close>

datatype 'r progress_reader = ProgressReader 'r int

text \<open>
  What a PostRun goroutine does, in order: calls on the response \<open>res\<close>, on the emitter
  \<open>re\<close>, writes to the standard streams, and a panic.
\<close>

datatype 'r effect =
  Copy
| Next
| SetError err_arg ErrorType
| Bar_Start int
| Emit "'r progress_reader"
| Close
| Stdout string
| Stderr string
| Panic

section \<open>cat.go\<close>

definition progressBarMinSize :: uint64 where
  "progressBarMinSize = 1024 * 1024 * 8"

text \<open>The value pulled in cat's PostRun is cast with \<open>v.(io.Reader)\<close>; a value of another
  type is kept as the type name \<open>%T\<close> prints.\<close>

datatype 'r cat_value = Reader 'r | NotReader string

text \<open>
  The goroutine of \<open>CatCmd.PostRun[cmds.CLI]\<close>. \<open>copy_err\<close> is what \<open>cmds.Copy(re, res)\<close>
  returns; \<open>cmds.Copy\<close> closes the emitter itself, so the direct path has no \<open>Close\<close> of
  its own. The deferred \<open>re.Close()\<close> is registered after the direct path has returned and
  runs at every later return.
\<close>

definition cat_PostRun :: "'r cat_value response \<Rightarrow> go_error option \<Rightarrow> 'r effect list" where
  "cat_PostRun res copy_err =
     (if 0 < res_Length res \<and> res_Length res < progressBarMinSize then
        (case copy_err of
           Some err \<Rightarrow> [Copy, SetError (ErrValue err) ErrNormal]
         | None \<Rightarrow> [Copy])
      else
        (case res_Next res 0 of
           Inr err \<Rightarrow>
             (if err_ident err = ErrRcvdError then
                (case res_Error res of
                   Some e \<Rightarrow> [Next, SetError (ErrString (Message e)) (Code e), Close]
                 | None \<Rightarrow> [Next, Panic, Close])
              else [Next, SetError (ErrCmds (res_Error res)) ErrNormal, Close])
         | Inl (NotReader T) \<Rightarrow>
             [Next, SetError (ErrString (''expected io.Reader, not '' @ T)) ErrNormal, Close]
         | Inl (Reader r) \<Rightarrow>
             [Next, Bar_Start (sint (res_Length res)),
              Emit (ProgressReader r (sint (res_Length res))), Close]))"

text \<open>
  \<open>cat\<close>: \<open>Cat\<close> stands for \<open>coreunix.Cat(ctx, node, _)\<close> and \<open>read_Size\<close> for
  \<open>uint64(read.Size())\<close>. The result is Go's triple; the nil slice of the error return is
  the empty list, the nil error is \<open>None\<close>. \<open>length\<close> is a uint64 and \<open>+=\<close> wraps.
\<close>

fun cat_loop ::
  "(string \<Rightarrow> 'e + 'r) \<Rightarrow> ('r \<Rightarrow> uint64) \<Rightarrow> string list \<Rightarrow> 'r list \<Rightarrow> uint64
     \<Rightarrow> 'r list \<times> uint64 \<times> 'e option" where
  "cat_loop Cat read_Size [] readers len = (readers, len, None)"
| "cat_loop Cat read_Size (fpath # paths) readers len =
     (case Cat fpath of
        Inl err \<Rightarrow> ([], 0, Some err)
      | Inr read \<Rightarrow> cat_loop Cat read_Size paths (readers @ [read]) (len + read_Size read))"

definition cat ::
  "(string \<Rightarrow> 'e + 'r) \<Rightarrow> ('r \<Rightarrow> uint64) \<Rightarrow> string list \<Rightarrow> 'r list \<times> uint64 \<times> 'e option" where
  "cat Cat read_Size paths = cat_loop Cat read_Size paths [] 0"

text \<open>How a trace of cat's PostRun is read: the direct path is the one that calls
  \<open>cmds.Copy\<close>; the progress path is the one that starts a bar or emits a
  progress-tracking reader.\<close>

definition direct_copy :: "'r effect list \<Rightarrow> bool" where
  "direct_copy tr = (Copy \<in> set tr)"

fun progress_effect :: "'r effect \<Rightarrow> bool" where
  "progress_effect (Bar_Start t) = True"
| "progress_effect (Emit pr) = True"
| "progress_effect e = False"

definition progress_wrapped :: "'r effect list \<Rightarrow> bool" where
  "progress_wrapped tr = list_ex progress_effect tr"


section \<open>filestore.go\<close>

text \<open>
  Modelled from the spec: \<open>filestore.ListRes\<close> and its \<open>Status\<close> are declared in package
  \<open>filestore\<close> of this repository, which is not among these sources. The spec describes a
  result as a status record with a status message field that is non-empty for an error,
  printed as status, hash, size, path and offset; the commands here read and write
  \<open>Status\<close> and \<open>ErrorMsg\<close> and name the status \<open>StatusOtherError\<close>, and the help text
  of \<open>verify\<close> lists six statuses (ok, changed, no-file, error, missing, ERROR). A
  \<open>*filestore.ListRes\<close> is a \<open>ListRes option\<close>, nil being \<open>None\<close>; a \<open>*cid.Cid\<close> is a value
  of the type variable \<open>'c\<close>.
\<close>

datatype Status =
  StatusOk
| StatusFileChanged
| StatusFileNotFound
| StatusFileError
| StatusKeyNotFound
| StatusOtherError

record 'c ListRes =
  Status :: Status
  ErrorMsg :: string
  Key :: "'c option"
  Size :: uint64
  FilePath :: string
  Offset :: uint64


subsection \<open>Channels, select and goroutines\<close>

text \<open>
  The producers run concurrently with a consumer and with whoever cancels the context.
  What they see of both is the state of the world each time they reach a send on \<open>out\<close>:
  whether the channel can take the item (room in the buffer of 128, or a receiver
  waiting), whether \<open>ctx.Done()\<close> is closed, and, for a select with both cases ready, the
  case Go's pseudo-random choice picks. The k-th send a goroutine reaches (k items sent
  so far) meets \<open>world k\<close>.
\<close>

record world =
  chan_ready :: bool
  ctx_done :: bool
  pick_send :: bool

text \<open>How a send resolves: the item is sent, the cancellation case runs, or neither
  case ever becomes ready and the goroutine stays blocked.\<close>

datatype resolution = Sends | Cancels | Parks

text \<open>\<open>select { case out <- r: case <-ctx.Done(): return }\<close>\<close>

definition select_send :: "world \<Rightarrow> resolution" where
  "select_send w =
     (if chan_ready w \<and> ctx_done w then (if pick_send w then Sends else Cancels)
      else if chan_ready w then Sends
      else if ctx_done w then Cancels
      else Parks)"

text \<open>\<open>out <- x\<close>, outside any select: the context is not looked at.\<close>

definition plain_send :: "world \<Rightarrow> resolution" where
  "plain_send w = (if chan_ready w then Sends else Parks)"

text \<open>
  A producer goroutine and its channel: the items sent on \<open>out\<close> in order (a channel is
  first-in first-out, so this is what a consumer ranging over it receives), the calls
  made to the action, generator or blockstore, and how many times \<open>close(out)\<close> ran.
\<close>

record ('v, 'k) producer =
  sent :: "'v list"
  calls :: "'k list"
  closes :: nat

definition make_chan :: "('v, 'k) producer" where
  "make_chan = \<lparr>sent = [], calls = [], closes = 0\<rparr>"

text \<open>A goroutine body either returns or stays blocked for ever on a channel
  operation.\<close>

datatype ('v, 'k) goroutine = Exited "('v, 'k) producer" | Parked "('v, 'k) producer"

fun state_of :: "('v, 'k) goroutine \<Rightarrow> ('v, 'k) producer" where
  "state_of (Exited p) = p"
| "state_of (Parked p) = p"

fun exited :: "('v, 'k) goroutine \<Rightarrow> bool" where
  "exited (Exited p) = True"
| "exited (Parked p) = False"

text \<open>\<open>defer close(out)\<close>: runs when the body returns, on whichever return.\<close>

fun deferred_close :: "('v, 'k) goroutine \<Rightarrow> ('v, 'k) goroutine" where
  "deferred_close (Exited p) = Exited (p\<lparr>closes := closes p + 1\<rparr>)"
| "deferred_close (Parked p) = Parked p"

subsection \<open>perKeyActionToChan\<close>

text \<open>\<open>Decode\<close> stands for \<open>cid.Decode\<close>: the identifier, or the text of the parse error
  (\<open>%v\<close> of an error prints its \<open>Error()\<close>).\<close>

definition parse_error_res :: "string \<Rightarrow> string \<Rightarrow> 'c ListRes" where
  "parse_error_res arg err =
     \<lparr>Status = StatusOtherError, ErrorMsg = arg @ '': '' @ err,
      Key = None, Size = 0, FilePath = [], Offset = 0\<rparr>"

fun perKey_loop ::
  "(string \<Rightarrow> string + 'c) \<Rightarrow> ('c \<Rightarrow> 'c ListRes option) \<Rightarrow> (nat \<Rightarrow> world) \<Rightarrow> string list
     \<Rightarrow> ('c ListRes option, 'c) producer \<Rightarrow> ('c ListRes option, 'c) goroutine" where
  "perKey_loop Decode action world [] p = Exited p"
| "perKey_loop Decode action world (arg # args) p =
     (case Decode arg of
        Inl err \<Rightarrow>
          (case plain_send (world (length (sent p))) of
             Sends \<Rightarrow>
               perKey_loop Decode action world args
                 (p\<lparr>sent := sent p @ [Some (parse_error_res arg err)]\<rparr>)
           | Cancels \<Rightarrow> Parked p
           | Parks \<Rightarrow> Parked p)
      | Inr c \<Rightarrow>
          (case select_send (world (length (sent p))) of
             Sends \<Rightarrow>
               perKey_loop Decode action world args
                 (p\<lparr>sent := sent p @ [action c], calls := calls p @ [c]\<rparr>)
           | Cancels \<Rightarrow> Exited (p\<lparr>calls := calls p @ [c]\<rparr>)
           | Parks \<Rightarrow> Parked (p\<lparr>calls := calls p @ [c]\<rparr>)))"

definition perKeyActionToChan ::
  "(string \<Rightarrow> string + 'c) \<Rightarrow> string list \<Rightarrow> ('c \<Rightarrow> 'c ListRes option) \<Rightarrow> (nat \<Rightarrow> world)
     \<Rightarrow> ('c ListRes option, 'c) goroutine" where
  "perKeyActionToChan Decode args action world =
     deferred_close (perKey_loop Decode action world args make_chan)"

subsection \<open>listResToChan\<close>

text \<open>
  \<open>next\<close> is a closure without arguments: a run sees the pointers its successive calls
  return, \<open>next k\<close> for the k-th call. The loop has no bound of its own (a generator that
  never returns nil keeps it running), so it is given fuel: \<open>None\<close> is a run that has not
  finished within the fuel.
\<close>

fun listRes_loop ::
  "nat \<Rightarrow> (nat \<Rightarrow> 'c ListRes option) \<Rightarrow> (nat \<Rightarrow> world) \<Rightarrow> ('c ListRes option, unit) producer
     \<Rightarrow> ('c ListRes option, unit) goroutine option" where
  "listRes_loop 0 next world p = None"
| "listRes_loop (Suc fuel) next world p =
     (case next (length (calls p)) of
        None \<Rightarrow> Some (Exited (p\<lparr>calls := calls p @ [()]\<rparr>))
      | Some r \<Rightarrow>
          (case select_send (world (length (sent p))) of
             Sends \<Rightarrow>
               listRes_loop fuel next world
                 (p\<lparr>sent := sent p @ [Some r], calls := calls p @ [()]\<rparr>)
           | Cancels \<Rightarrow> Some (Exited (p\<lparr>calls := calls p @ [()]\<rparr>))
           | Parks \<Rightarrow> Some (Parked (p\<lparr>calls := calls p @ [()]\<rparr>))))"

definition listResToChan ::
  "nat \<Rightarrow> (nat \<Rightarrow> 'c ListRes option) \<Rightarrow> (nat \<Rightarrow> world)
     \<Rightarrow> ('c ListRes option, unit) goroutine option" where
  "listResToChan fuel next world =
     map_option deferred_close (listRes_loop fuel next world make_chan)"

subsection \<open>The goroutine of dupsFileStore\<close>



subsection \<open>The goroutine of lsFileStore.PostRun[cmds.CLI]\<close>

text \<open>The value pulled is cast with \<open>v.(*filestore.ListRes)\<close>, which panics on a value
  of another type; reading \<open>r.ErrorMsg\<close> through a nil pointer panics as well.\<close>

datatype 'c ls_value = ListResPtr "'c ListRes option" | NotListRes

text \<open>How the loop \<open>for err == nil\<close> is left: through \<open>break\<close> with the error of the
  failed pull and the flag \<open>errors\<close>, or by a panic. This goroutine emits no reader, so
  its effects carry none.\<close>

datatype loop_exit = Broke go_error bool "unit effect list" | Panicked "unit effect list"

text \<open>
  \<open>FormatLong\<close> stands for the method \<open>r.FormatLong()\<close>. \<open>k\<close> counts the calls of
  \<open>res.Next()\<close> made so far. A response that never fails a pull keeps the loop running:
  the loop is given fuel, and \<open>None\<close> is a run that has not left the loop within it.
\<close>

fun ls_loop ::
  "nat \<Rightarrow> ('c ListRes \<Rightarrow> string) \<Rightarrow> 'c ls_value response \<Rightarrow> nat \<Rightarrow> bool \<Rightarrow> unit effect list
     \<Rightarrow> loop_exit option" where
  "ls_loop 0 FormatLong res k errors tr = None"
| "ls_loop (Suc fuel) FormatLong res k errors tr =
     (case res_Next res k of
        Inr err \<Rightarrow> Some (Broke err errors (tr @ [Next]))
      | Inl NotListRes \<Rightarrow> Some (Panicked (tr @ [Next, Panic]))
      | Inl (ListResPtr None) \<Rightarrow> Some (Panicked (tr @ [Next, Panic]))
      | Inl (ListResPtr (Some r)) \<Rightarrow>
          (if ErrorMsg r \<noteq> [] then
             ls_loop fuel FormatLong res (Suc k) True
               (tr @ [Next, Stderr (ErrorMsg r @ [CHR 0x0A])])
           else
             ls_loop fuel FormatLong res (Suc k) errors
               (tr @ [Next, Stdout (FormatLong r @ [CHR 0x0A])])))"

text \<open>
  The if-chain after the loop, on the error that ended it:
  \<open>err == io.EOF || err.Error() == "EOF"\<close>, then \<open>err == cmds.ErrRcvdError\<close>, then the
  rest. \<open>None\<close> is the panic of reading \<open>e.Message\<close> through a nil \<open>res.Error()\<close>.
\<close>

definition after_loop :: "'v response \<Rightarrow> go_error \<Rightarrow> unit effect list option" where
  "after_loop res err =
     (if err_ident err = io_EOF \<or> err_Error err = ''EOF'' then Some []
      else if err_ident err = ErrRcvdError then
        (case res_Error res of
           Some e \<Rightarrow> Some [SetError (ErrString (Message e)) (Code e)]
         | None \<Rightarrow> None)
      else Some [SetError (ErrValue err) ErrNormal])"

text \<open>The whole goroutine; \<open>defer re.Close()\<close> runs last on every way out, a panic
  included.\<close>

definition lsFileStore_PostRun ::
  "nat \<Rightarrow> ('c ListRes \<Rightarrow> string) \<Rightarrow> 'c ls_value response \<Rightarrow> unit effect list option" where
  "lsFileStore_PostRun fuel FormatLong res =
     (case ls_loop fuel FormatLong res 0 False [] of
        None \<Rightarrow> None
      | Some (Panicked tr) \<Rightarrow> Some (tr @ [Close])
      | Some (Broke err errors tr) \<Rightarrow>
          (case after_loop res err of
             None \<Rightarrow> Some (tr @ [Panic, Close])
           | Some set_err \<Rightarrow>
               (if errors then
                  Some (tr @ set_err @
                    [SetError (ErrString ''errors while displaying some entries'') ErrNormal,
                     Close])
                else Some (tr @ set_err @ [Close]))))"

section \<open>Reading runs\<close>

text \<open>The result the per-key dispatcher owes for one input string: the synthetic error
  for a string that does not parse, the action's result for one that does.\<close>

definition key_result ::
  "(string \<Rightarrow> string + 'c) \<Rightarrow> ('c \<Rightarrow> 'c ListRes option) \<Rightarrow> string \<Rightarrow> 'c ListRes option" where
  "key_result Decode action arg =
     (case Decode arg of
        Inl err \<Rightarrow> Some (parse_error_res arg err)
      | Inr c \<Rightarrow> action c)"

text \<open>The identifiers among the input strings, in order.\<close>

fun decoded :: "(string \<Rightarrow> string + 'c) \<Rightarrow> string list \<Rightarrow> 'c list" where
  "decoded Decode [] = []"
| "decoded Decode (arg # args) =
     (case Decode arg of
        Inl err \<Rightarrow> decoded Decode args
      | Inr c \<Rightarrow> c # decoded Decode args)"

text \<open>How the send for one input string resolves: strings that do not parse are sent
  outside the select.\<close>

definition key_send :: "(string \<Rightarrow> string + 'c) \<Rightarrow> string \<Rightarrow> world \<Rightarrow> resolution" where
  "key_send Decode arg w =
     (case Decode arg of
        Inl err \<Rightarrow> plain_send w
      | Inr c \<Rightarrow> select_send w)"

text \<open>The line the ls bridge prints for one result.\<close>

definition ls_line :: "('c ListRes \<Rightarrow> string) \<Rightarrow> 'c ListRes \<Rightarrow> unit effect" where
  "ls_line FormatLong r =
     (if ErrorMsg r \<noteq> [] then Stderr (ErrorMsg r @ [CHR 0x0A])
      else Stdout (FormatLong r @ [CHR 0x0A]))"

fun stderr_lines :: "'r effect list \<Rightarrow> string list" where
  "stderr_lines [] = []"
| "stderr_lines (Stderr s # tr) = s # stderr_lines tr"
| "stderr_lines (e # tr) = stderr_lines tr"

fun stdout_lines :: "'r effect list \<Rightarrow> string list" where
  "stdout_lines [] = []"
| "stdout_lines (Stdout s # tr) = s # stdout_lines tr"
| "stdout_lines (e # tr) = stdout_lines tr"

fun set_errors :: "'r effect list \<Rightarrow> (err_arg \<times> ErrorType) list" where
  "set_errors [] = []"
| "set_errors (SetError a c # tr) = (a, c) # set_errors tr"
| "set_errors (e # tr) = set_errors tr"

text \<open>What the ls bridge does for a sequence of pulled results: a pull and a line for
  each; and the aggregate error it reports at the end when one of them carried an error
  message.\<close>

definition ls_items :: "('c ListRes \<Rightarrow> string) \<Rightarrow> 'c ListRes list \<Rightarrow> unit effect list" where
  "ls_items FormatLong rs = concat (map (\<lambda>r. [Next, ls_line FormatLong r]) rs)"

definition soft_failure :: "'c ListRes list \<Rightarrow> bool" where
  "soft_failure rs = list_ex (\<lambda>r. ErrorMsg r \<noteq> []) rs"

definition ls_aggregate :: "'c ListRes list \<Rightarrow> unit effect list" where
  "ls_aggregate rs =
     (if soft_failure rs
      then [SetError (ErrString ''errors while displaying some entries'') ErrNormal]
      else [])"
section \<open>Properties of cat.go\<close>

lemma cat_loop_all_ok:
  "map Cat paths = map Inr rs \<Longrightarrow>
   cat_loop Cat read_Size paths readers len = (readers @ rs, len + sum_list (map read_Size rs), None)"
proof (induction paths arbitrary: rs readers len)
  case Nil
  then show ?case by simp
next
  case (Cons p ps)
  then obtain r rs' where rs: "rs = r # rs'" and p: "Cat p = Inr r"
    and ps: "map Cat ps = map Inr rs'"
    by (cases rs) auto
  show ?case
    using Cons.IH [OF ps, of "readers @ [r]" "len + read_Size r"]
    by (simp add: rs p add.assoc)
qed

lemma unat_sum_list_uint64:
  "unat (sum_list (ws :: uint64 list)) = sum_list (map unat ws) mod 2 ^ 64"
proof (induction ws)
  case Nil
  then show ?case by simp
next
  case (Cons w ws)
  have "unat (w + sum_list ws) = (unat w + unat (sum_list ws)) mod 2 ^ 64"
    by (simp add: unat_word_ariths)
  also have "\<dots> = (unat w + sum_list (map unat ws) mod 2 ^ 64) mod 2 ^ 64"
    by (simp add: Cons.IH)
  also have "\<dots> = (unat w + sum_list (map unat ws)) mod 2 ^ 64"
    by (rule mod_add_right_eq)
  finally show ?case by simp
qed

lemma cat_loop_first_error:
  "map Cat pre = map Inr rs \<Longrightarrow> Cat p = Inl err \<Longrightarrow>
   cat_loop Cat read_Size (pre @ p # post) readers len = ([], 0, Some err)"
proof (induction pre arbitrary: rs readers len)
  case Nil
  then show ?case by simp
next
  case (Cons q qs)
  then obtain r rs' where "Cat q = Inr r" and "map Cat qs = map Inr rs'"
    by (cases rs) auto
  with Cons show ?case by simp
qed


lemma cat_PostRun_direct_iff:
  "direct_copy (cat_PostRun res ce) \<longleftrightarrow> 0 < res_Length res \<and> res_Length res < progressBarMinSize"
  by (simp add: cat_PostRun_def direct_copy_def split: option.splits sum.splits cat_value.splits)

lemma cat_PostRun_reader:
  "\<not> (0 < res_Length res \<and> res_Length res < progressBarMinSize) \<Longrightarrow>
   res_Next res 0 = Inl (Reader r) \<Longrightarrow>
   cat_PostRun res ce =
     [Next, Bar_Start (sint (res_Length res)),
      Emit (ProgressReader r (sint (res_Length res))), Close]"
  by (auto simp: cat_PostRun_def)

lemma cat_PostRun_direct_not_wrapped:
  "direct_copy (cat_PostRun res ce) \<Longrightarrow> \<not> progress_wrapped (cat_PostRun res ce)"
  by (auto simp: cat_PostRun_def direct_copy_def progress_wrapped_def
      split: option.splits sum.splits cat_value.splits if_splits)

text \<open>
  C1 (as the code has it). With a declared length of 0 the guard
  \<open>res.Length() > 0 && res.Length() < progressBarMinSize\<close> is false, so the direct copy is
  not taken: the goroutine pulls the first value and, when it is a reader, starts a
  progress bar of total 0 and emits the progress-tracking reader, then closes.
\<close>

theorem cat_PostRun_zero_length:
  assumes "res_Length res = 0"
  shows "\<not> direct_copy (cat_PostRun res ce)
       \<and> hd (cat_PostRun res ce) = Next
       \<and> (\<forall>r. res_Next res 0 = Inl (Reader r) \<longrightarrow>
            cat_PostRun res ce = [Next, Bar_Start 0, Emit (ProgressReader r 0), Close])"
  using assms
  by (simp add: cat_PostRun_def direct_copy_def split: option.splits sum.splits cat_value.splits)

theorem cat_PostRun_zero_length_witness:
  "\<not> direct_copy (cat_PostRun
        \<lparr>res_Length = 0, res_Next = (\<lambda>k. Inl (Reader ''QmData'')), res_Error = None\<rparr> None)
   \<and> cat_PostRun
        \<lparr>res_Length = 0, res_Next = (\<lambda>k. Inl (Reader ''QmData'')), res_Error = None\<rparr> None
     = [Next, Bar_Start 0, Emit (ProgressReader ''QmData'' 0), Close]"
  using cat_PostRun_zero_length
    [of "\<lparr>res_Length = 0, res_Next = (\<lambda>k. Inl (Reader ''QmData'')), res_Error = None\<rparr>" None]
  by (simp add: direct_copy_def progress_wrapped_def)

text \<open>The claim as the spec words it (length 0 selects the direct copy and applies no
  progress wrapper) fails on a response of length 0 whose first value is a reader.\<close>

theorem cat_PostRun_zero_length_counterexample:
  "\<not> (direct_copy (cat_PostRun
          \<lparr>res_Length = 0, res_Next = (\<lambda>k. Inl (Reader ''QmData'')), res_Error = None\<rparr> None)
       \<and> \<not> progress_wrapped (cat_PostRun
          \<lparr>res_Length = 0, res_Next = (\<lambda>k. Inl (Reader ''QmData'')), res_Error = None\<rparr> None))"
  by (simp add: cat_PostRun_def direct_copy_def)

text \<open>
  C2. For a strictly positive declared length the direct copy is taken exactly when the
  length is below 8 * 1024 * 1024, and then nothing of the progress path happens; from
  the threshold on, the goroutine pulls the first value and a reader is wrapped in the
  progress-tracking view, whose total is the declared length, before it is emitted.
\<close>

theorem cat_PostRun_threshold:
  assumes "0 < res_Length res"
  shows "(direct_copy (cat_PostRun res ce) \<longleftrightarrow> res_Length res < 8 * 1024 * 1024)
       \<and> (direct_copy (cat_PostRun res ce) \<longrightarrow> \<not> progress_wrapped (cat_PostRun res ce))
       \<and> (\<forall>r. res_Next res 0 = Inl (Reader r) \<longrightarrow>
            (progress_wrapped (cat_PostRun res ce) \<longleftrightarrow> 8 * 1024 * 1024 \<le> res_Length res)
          \<and> (8 * 1024 * 1024 \<le> res_Length res \<longrightarrow>
               cat_PostRun res ce =
                 [Next, Bar_Start (sint (res_Length res)),
                  Emit (ProgressReader r (sint (res_Length res))), Close]))"
proof -
  have thr: "progressBarMinSize = 8 * 1024 * 1024"
    by (simp add: progressBarMinSize_def)
  have d: "direct_copy (cat_PostRun res ce) \<longleftrightarrow> res_Length res < 8 * 1024 * 1024"
    using assms by (simp add: cat_PostRun_direct_iff thr)
  have w: "progress_wrapped (cat_PostRun res ce) \<longleftrightarrow> 8 * 1024 * 1024 \<le> res_Length res"
    if "res_Next res 0 = Inl (Reader r)" for r
  proof (cases "res_Length res < 8 * 1024 * 1024")
    case True
    then show ?thesis
      using d cat_PostRun_direct_not_wrapped [of res ce] by (simp add: not_le)
  next
    case False
    then have "\<not> (0 < res_Length res \<and> res_Length res < progressBarMinSize)"
      by (simp add: thr)
    from cat_PostRun_reader [OF this that] False show ?thesis
      by (simp add: progress_wrapped_def not_less)
  qed
  have e: "cat_PostRun res ce =
      [Next, Bar_Start (sint (res_Length res)),
       Emit (ProgressReader r (sint (res_Length res))), Close]"
    if "res_Next res 0 = Inl (Reader r)" and "8 * 1024 * 1024 \<le> res_Length res" for r
  proof -
    from that(2) have "\<not> (0 < res_Length res \<and> res_Length res < progressBarMinSize)"
      by (simp add: thr not_less)
    from cat_PostRun_reader [OF this that(1)] show ?thesis .
  qed
  from d w e cat_PostRun_direct_not_wrapped [of res ce] show ?thesis by blast
qed

text \<open>The spec's two examples: 7 MiB is copied directly, 9 MiB goes through the
  progress-tracking reader.\<close>

theorem cat_PostRun_threshold_witness:
  "direct_copy (cat_PostRun
      \<lparr>res_Length = 7 * 1024 * 1024, res_Next = (\<lambda>k. Inl (Reader ''QmData'')),
       res_Error = None\<rparr> None)
   \<and> \<not> progress_wrapped (cat_PostRun
      \<lparr>res_Length = 7 * 1024 * 1024, res_Next = (\<lambda>k. Inl (Reader ''QmData'')),
       res_Error = None\<rparr> None)
   \<and> \<not> direct_copy (cat_PostRun
      \<lparr>res_Length = 9 * 1024 * 1024, res_Next = (\<lambda>k. Inl (Reader ''QmData'')),
       res_Error = None\<rparr> None)
   \<and> cat_PostRun
      \<lparr>res_Length = 9 * 1024 * 1024, res_Next = (\<lambda>k. Inl (Reader ''QmData'')),
       res_Error = None\<rparr> None
     = [Next, Bar_Start 9437184, Emit (ProgressReader ''QmData'' 9437184), Close]"
  using cat_PostRun_threshold
    [of "\<lparr>res_Length = 7 * 1024 * 1024, res_Next = (\<lambda>k. Inl (Reader ''QmData'')),
          res_Error = None\<rparr>" None]
    cat_PostRun_threshold
    [of "\<lparr>res_Length = 9 * 1024 * 1024, res_Next = (\<lambda>k. Inl (Reader ''QmData'')),
          res_Error = None\<rparr>" None]
  by (simp add: direct_copy_def progress_wrapped_def)

text \<open>
  C6 (as the code has it). When every lookup succeeds, \<open>cat\<close> returns the readers in the
  order of the paths, no error, and as length the uint64 sum of their declared sizes:
  the sum of the sizes modulo 2^64, which is the exact sum whenever that sum is below
  2^64.
\<close>

theorem cat_all_ok:
  assumes "map Cat paths = map Inr rs"
  shows "cat Cat read_Size paths = (rs, sum_list (map read_Size rs), None)
       \<and> unat (sum_list (map read_Size rs)) = (\<Sum>r\<leftarrow>rs. unat (read_Size r)) mod 2 ^ 64
       \<and> ((\<Sum>r\<leftarrow>rs. unat (read_Size r)) < 2 ^ 64 \<longrightarrow>
            unat (fst (snd (cat Cat read_Size paths))) = (\<Sum>r\<leftarrow>rs. unat (read_Size r)))"
proof -
  have c: "cat Cat read_Size paths = (rs, sum_list (map read_Size rs), None)"
    using cat_loop_all_ok [OF assms, of read_Size "[]" 0] by (simp add: cat_def)
  have u: "unat (sum_list (map read_Size rs)) = (\<Sum>r\<leftarrow>rs. unat (read_Size r)) mod 2 ^ 64"
    using unat_sum_list_uint64 [of "map read_Size rs"] by (simp add: comp_def)
  from c u show ?thesis by simp
qed

text \<open>The spec's example: two paths of sizes 10 and 20 give the two readers in order and
  the length 30.\<close>

theorem cat_all_ok_witness:
  "cat (\<lambda>p. if p = ''p1'' then Inr (''r1'', 10) else if p = ''p2'' then Inr (''r2'', 20)
             else Inl ''no link'') snd [''p1'', ''p2'']
     = ([(''r1'', 10), (''r2'', 20)], 30, None)"
  using cat_all_ok
    [of "\<lambda>p. if p = ''p1'' then Inr (''r1'', 10) else if p = ''p2'' then Inr (''r2'', 20)
              else Inl ''no link''"
        "[''p1'', ''p2'']" "[(''r1'', 10), (''r2'', 20)]" snd]
  by simp

text \<open>Two readers that each declare 2^63 bytes: every lookup succeeds, the exact sum of
  the declared sizes is 2^64, and the returned length is 0.\<close>

theorem cat_all_ok_counterexample:
  "cat (\<lambda>p. Inr (p, 9223372036854775808)) snd [''p1'', ''p2'']
     = ([(''p1'', 9223372036854775808), (''p2'', 9223372036854775808)], 0, None :: unit option)
   \<and> unat (fst (snd (cat (\<lambda>p. Inr (p, 9223372036854775808) :: unit + string \<times> uint64) snd
        [''p1'', ''p2'']))) \<noteq>
     unat (9223372036854775808 :: uint64) + unat (9223372036854775808 :: uint64)"
  by (simp add: cat_def)

text \<open>
  C7. If the lookup of some path fails, \<open>cat\<close> stops at the first path whose lookup
  fails and returns that lookup's error with the nil reader list and the length 0,
  however many lookups succeeded before it and whatever paths follow it.
\<close>

theorem cat_fail_fast:
  assumes "p \<in> set paths" and "Cat p = Inl err"
  shows "\<exists>pre q post e.
           paths = pre @ q # post
         \<and> list_all (\<lambda>x. \<not> isl (Cat x)) pre
         \<and> Cat q = Inl e
         \<and> cat Cat read_Size paths = ([], 0, Some e)
         \<and> cat Cat read_Size (pre @ [q]) = ([], 0, Some e)"
proof -
  from assms have "\<exists>x \<in> set paths. isl (Cat x)"
    by (auto intro: bexI [of _ p])
  then obtain pre q post where dec: "paths = pre @ q # post"
    and q: "isl (Cat q)" and pre: "\<forall>x \<in> set pre. \<not> isl (Cat x)"
    using split_list_first_prop [of paths "\<lambda>x. isl (Cat x)"] by blast
  from q obtain e where e: "Cat q = Inl e"
    by (cases "Cat q") auto
  have m: "map Cat pre = map Inr (map (\<lambda>x. projr (Cat x)) pre)"
    using pre by (induction pre) auto
  have "cat Cat read_Size paths = ([], 0, Some e)"
    using cat_loop_first_error [OF m e, of read_Size post "[]" 0] by (simp add: cat_def dec)
  moreover have "cat Cat read_Size (pre @ [q]) = ([], 0, Some e)"
    using cat_loop_first_error [OF m e, of read_Size "[]" "[]" 0] by (simp add: cat_def)
  ultimately show ?thesis
    using dec e pre by (auto simp: list_all_iff)
qed

theorem cat_fail_fast_witness:
  "cat (\<lambda>p. if p = ''p1'' then Inr (''r1'', 10) else if p = ''p3'' then Inr (''r3'', 5)
             else Inl (''no link named '' @ p)) snd [''p1'', ''bad'', ''p3'', ''worse'']
     = ([], 0, Some ''no link named bad'')"
proof -
  let ?Cat = "\<lambda>p. if p = ''p1'' then Inr (''r1'', 10 :: uint64)
                   else if p = ''p3'' then Inr (''r3'', 5)
                   else Inl (''no link named '' @ p)"
  let ?paths = "[''p1'', ''bad'', ''p3'', ''worse'']"
  have "''bad'' \<in> set ?paths" by simp
  moreover have "?Cat ''bad'' = Inl ''no link named bad''" by simp
  ultimately obtain pre q post e where
    "?paths = pre @ q # post" "cat ?Cat snd ?paths = ([], 0, Some e)"
    using cat_fail_fast [of "''bad''" ?paths ?Cat "''no link named bad''" snd] by blast
  moreover have "cat ?Cat snd ?paths = ([], 0, Some ''no link named bad'')"
    by (simp add: cat_def)
  ultimately show ?thesis by simp
qed

section \<open>Properties of the producers of filestore.go\<close>

lemma select_send_cases:
  "select_send w = Sends \<longleftrightarrow> chan_ready w \<and> (ctx_done w \<longrightarrow> pick_send w)"
  "select_send w = Cancels \<longleftrightarrow> ctx_done w \<and> (chan_ready w \<longrightarrow> \<not> pick_send w)"
  "select_send w = Parks \<longleftrightarrow> \<not> chan_ready w \<and> \<not> ctx_done w"
  by (auto simp: select_send_def)

lemma plain_send_cases:
  "plain_send w = Sends \<longleftrightarrow> chan_ready w"
  "plain_send w \<noteq> Cancels"
  "plain_send w = Parks \<longleftrightarrow> \<not> chan_ready w"
  by (auto simp: plain_send_def)

subsection \<open>perKeyActionToChan\<close>

lemma key_result_Inl:
  "Decode arg = Inl err \<Longrightarrow> key_result Decode action arg = Some (parse_error_res arg err)"
  by (simp add: key_result_def)

lemma key_result_Inr: "Decode arg = Inr c \<Longrightarrow> key_result Decode action arg = action c"
  by (simp add: key_result_def)

text \<open>While every send goes through, the loop walks the input strings in order.\<close>

lemma perKey_loop_append:
  "\<forall>k < length pre. key_send Decode (pre ! k) (world (length (sent p) + k)) = Sends \<Longrightarrow>
   perKey_loop Decode action world (pre @ post) p =
   perKey_loop Decode action world post
     (p\<lparr>sent := sent p @ map (key_result Decode action) pre,
        calls := calls p @ decoded Decode pre\<rparr>)"
proof (induction pre arbitrary: p)
  case Nil
  then show ?case by simp
next
  case (Cons arg pre)
  from Cons.prems have hd: "key_send Decode arg (world (length (sent p))) = Sends"
    by (auto dest: spec [of _ 0])
  have tl: "\<forall>k < length pre.
      key_send Decode (pre ! k) (world (length (sent q) + k)) = Sends"
    if "length (sent q) = Suc (length (sent p))" for q :: "('a ListRes option, 'a) producer"
  proof (intro allI impI)
    fix k assume "k < length pre"
    with Cons.prems
    have "key_send Decode ((arg # pre) ! Suc k) (world (length (sent p) + Suc k)) = Sends"
      by (auto dest: spec [of _ "Suc k"])
    with that show "key_send Decode (pre ! k) (world (length (sent q) + k)) = Sends"
      by simp
  qed
  show ?case
  proof (cases "Decode arg")
    case (Inl err)
    with hd have s: "plain_send (world (length (sent p))) = Sends"
      by (simp add: key_send_def)
    let ?q = "p\<lparr>sent := sent p @ [Some (parse_error_res arg err)]\<rparr>"
    have "length (sent ?q) = Suc (length (sent p))" by simp
    from Cons.IH [OF tl [OF this]] Inl s show ?thesis
      by (simp add: key_result_Inl)
  next
    case (Inr c)
    with hd have s: "select_send (world (length (sent p))) = Sends"
      by (simp add: key_send_def)
    let ?q = "p\<lparr>sent := sent p @ [action c], calls := calls p @ [c]\<rparr>"
    have "length (sent ?q) = Suc (length (sent p))" by simp
    from Cons.IH [OF tl [OF this]] Inr s show ?thesis
      by (simp add: key_result_Inr)
  qed
qed
















subsection \<open>listResToChan\<close>

text \<open>While the generator yields results and every select sends, the loop forwards
  them in order, one call of the generator for each.\<close>

lemma listRes_loop_run:
  "\<forall>i < n. next (length (calls p) + i) \<noteq> None
            \<and> select_send (world (length (sent p) + i)) = Sends \<Longrightarrow>
   listRes_loop (n + fuel) next world p =
   listRes_loop fuel next world
     (p\<lparr>sent := sent p @ map next [length (calls p) ..< length (calls p) + n],
        calls := calls p @ replicate n ()\<rparr>)"
proof (induction n arbitrary: p)
  case 0
  then show ?case by simp
next
  case (Suc n)
  from Suc.prems have "next (length (calls p)) \<noteq> None"
    and s: "select_send (world (length (sent p))) = Sends"
    by (auto dest: spec [of _ 0])
  then obtain r where r: "next (length (calls p)) = Some r"
    by auto
  let ?q = "p\<lparr>sent := sent p @ [Some r], calls := calls p @ [()]\<rparr>"
  have "\<forall>i < n. next (length (calls ?q) + i) \<noteq> None
            \<and> select_send (world (length (sent ?q) + i)) = Sends"
  proof (intro allI impI)
    fix i assume "i < n"
    with Suc.prems have "next (length (calls p) + Suc i) \<noteq> None
        \<and> select_send (world (length (sent p) + Suc i)) = Sends"
      by (auto dest: spec [of _ "Suc i"])
    then show "next (length (calls ?q) + i) \<noteq> None
        \<and> select_send (world (length (sent ?q) + i)) = Sends"
      by simp
  qed
  from Suc.IH [OF this]
  have ih: "listRes_loop (n + fuel) next world ?q =
      listRes_loop fuel next world
        (p\<lparr>sent := sent p @ Some r # map next [Suc (length (calls p)) ..< Suc (length (calls p) + n)],
           calls := calls p @ () # replicate n ()\<rparr>)"
    by (simp del: upt_Suc)
  have u: "[length (calls p) ..< Suc (length (calls p) + n)] =
      length (calls p) # [Suc (length (calls p)) ..< Suc (length (calls p) + n)]"
    by (rule upt_conv_Cons) simp
  from ih r s show ?case
    by (simp del: upt_Suc add: u)
qed


lemma listRes_loop_ready_exits:
  "\<forall>k. chan_ready (world k) \<Longrightarrow> listRes_loop fuel next world p = Some g \<Longrightarrow> exited g"
  by (induction fuel arbitrary: p)
    (auto simp: select_send_def split: option.splits resolution.splits if_splits)


subsection \<open>dups\<close>



lemma decoded_append: "decoded Decode (xs @ ys) = decoded Decode xs @ decoded Decode ys"
  by (induction xs) (auto split: sum.splits)

lemma listResToChan_cancelled:
  assumes run: "\<forall>k < n. next k \<noteq> None \<and> select_send (world k) = Sends"
    and r: "next n \<noteq> None"
    and c: "select_send (world n) = Cancels"
    and fuel: "n < fuel"
  shows "listResToChan fuel next world =
         Some (Exited \<lparr>sent = map next [0..<n], calls = replicate (Suc n) (), closes = 1\<rparr>)"
proof -
  from fuel obtain f where f: "fuel = n + Suc f"
    by (auto simp: less_iff_Suc_add)
  let ?p = "make_chan :: ('a ListRes option, unit) producer"
  have "\<forall>i < n. next (length (calls ?p) + i) \<noteq> None
            \<and> select_send (world (length (sent ?p) + i)) = Sends"
    using run by (simp add: make_chan_def)
  from listRes_loop_run [OF this, of "Suc f"]
  have "listRes_loop fuel next world make_chan =
        listRes_loop (Suc f) next world
          \<lparr>sent = map next [0..<n], calls = replicate n (), closes = 0\<rparr>"
    by (simp add: f make_chan_def)
  also have "\<dots> = Some (Exited \<lparr>sent = map next [0..<n], calls = replicate (Suc n) (), closes = 0\<rparr>)"
    using r c by (auto simp: replicate_append_same)
  finally show ?thesis
    by (simp add: listResToChan_def)
qed

lemma perKeyActionToChan_cancelled:
  assumes m: "m < length args"
    and run: "\<forall>k < m. key_send Decode (args ! k) (world k) = Sends"
    and d: "Decode (args ! m) = Inr c"
    and c: "select_send (world m) = Cancels"
  shows "perKeyActionToChan Decode args action world =
         Exited \<lparr>sent = map (key_result Decode action) (take m args),
                 calls = decoded Decode (take (Suc m) args), closes = 1\<rparr>"
proof -
  let ?p = "make_chan :: ('a ListRes option, 'a) producer"
  have split: "args = take m args @ args ! m # drop (Suc m) args"
    using m by (rule id_take_nth_drop)
  have "\<forall>k < length (take m args).
      key_send Decode (take m args ! k) (world (length (sent ?p) + k)) = Sends"
    using run by (simp add: make_chan_def)
  from perKey_loop_append [OF this, of action "args ! m # drop (Suc m) args"]
  have "perKey_loop Decode action world args make_chan =
        perKey_loop Decode action world (args ! m # drop (Suc m) args)
          \<lparr>sent = map (key_result Decode action) (take m args),
           calls = decoded Decode (take m args), closes = 0\<rparr>"
    using split by (simp add: make_chan_def)
  also have "\<dots> = Exited \<lparr>sent = map (key_result Decode action) (take m args),
                          calls = decoded Decode (take m args) @ [c], closes = 0\<rparr>"
    using d c m by (simp add: min_absorb2)
  also have "decoded Decode (take m args) @ [c] = decoded Decode (take (Suc m) args)"
    using d m by (simp add: take_Suc_conv_app_nth decoded_append)
  finally show ?thesis
    by (simp add: perKeyActionToChan_def)
qed

text \<open>
  C5 (as the code has it). In \<open>listResToChan\<close>, and for the identifiers that parse in
  \<open>perKeyActionToChan\<close>, every send is one case of a select whose other case is the
  cancellation signal. The select runs the cancellation case only when the signal has
  fired, and always when it has fired and the channel cannot take the item; when the
  channel can take it as well, either case may run. Once the cancellation case runs, the
  producer sends nothing more, calls the generator or the action no more (the call
  whose result was about to be sent is the last) and closes its output once.
\<close>

theorem producers_cancellation:
  "(select_send w = Cancels \<longleftrightarrow> ctx_done w \<and> (chan_ready w \<longrightarrow> \<not> pick_send w))
   \<and> ((\<forall>k < n. next k \<noteq> None \<and> select_send (world k) = Sends)
        \<and> next n \<noteq> None \<and> select_send (world n) = Cancels \<and> n < fuel \<longrightarrow>
        listResToChan fuel next world =
        Some (Exited \<lparr>sent = map next [0..<n], calls = replicate (Suc n) (), closes = 1\<rparr>))
   \<and> (m < length args
        \<and> (\<forall>k < m. key_send Decode (args ! k) (world k) = Sends)
        \<and> Decode (args ! m) = Inr c \<and> select_send (world m) = Cancels \<longrightarrow>
        perKeyActionToChan Decode args action world =
        Exited \<lparr>sent = map (key_result Decode action) (take m args),
                calls = decoded Decode (take (Suc m) args), closes = 1\<rparr>)"
  using listResToChan_cancelled [of n "next" world fuel]
    perKeyActionToChan_cancelled [of m args Decode world c action]
  by (simp add: select_send_cases)

text \<open>The signal fires after two items have been consumed and the channel is full from
  then on: a generator that never ends, and a list of three identifiers, both stop with
  two items sent, three calls made and the channel closed.\<close>

theorem producers_cancellation_witness:
  "listResToChan 5
     (\<lambda>k. Some \<lparr>Status = StatusOk, ErrorMsg = [], Key = Some k, Size = 1,
                 FilePath = ''f'', Offset = 0\<rparr>)
     (\<lambda>k. if k < 2 then \<lparr>chan_ready = True, ctx_done = False, pick_send = False\<rparr>
           else \<lparr>chan_ready = False, ctx_done = True, pick_send = False\<rparr>)
   = Some (Exited
       \<lparr>sent =
          [Some \<lparr>Status = StatusOk, ErrorMsg = [], Key = Some 0, Size = 1,
                 FilePath = ''f'', Offset = 0\<rparr>,
           Some \<lparr>Status = StatusOk, ErrorMsg = [], Key = Some 1, Size = 1,
                 FilePath = ''f'', Offset = 0\<rparr>],
        calls = [(), (), ()], closes = 1\<rparr>)
   \<and> perKeyActionToChan Inr [''A'', ''B'', ''C'']
       (\<lambda>c. Some \<lparr>Status = StatusOk, ErrorMsg = [], Key = Some c, Size = 1,
                   FilePath = ''f'', Offset = 0\<rparr>)
       (\<lambda>k. if k < 2 then \<lparr>chan_ready = True, ctx_done = False, pick_send = False\<rparr>
             else \<lparr>chan_ready = False, ctx_done = True, pick_send = False\<rparr>)
   = Exited
       \<lparr>sent =
          [Some \<lparr>Status = StatusOk, ErrorMsg = [], Key = Some ''A'', Size = 1,
                 FilePath = ''f'', Offset = 0\<rparr>,
           Some \<lparr>Status = StatusOk, ErrorMsg = [], Key = Some ''B'', Size = 1,
                 FilePath = ''f'', Offset = 0\<rparr>],
        calls = [''A'', ''B'', ''C''], closes = 1\<rparr>"
proof -
  let ?world = "\<lambda>k :: nat. if k < 2 then \<lparr>chan_ready = True, ctx_done = False, pick_send = False\<rparr>
             else \<lparr>chan_ready = False, ctx_done = True, pick_send = False\<rparr>"
  let ?next = "\<lambda>k :: nat. Some \<lparr>Status = StatusOk, ErrorMsg = [], Key = Some k, Size = 1,
                 FilePath = ''f'', Offset = (0 :: uint64)\<rparr>"
  let ?action = "\<lambda>c :: string. Some \<lparr>Status = StatusOk, ErrorMsg = [], Key = Some c, Size = 1,
                   FilePath = ''f'', Offset = (0 :: uint64)\<rparr>"
  have two: "[0..<2] = [0, Suc 0]"
    by (simp add: upt_conv_Cons)
  have nth: "[''A'', ''B'', ''C''] ! 2 = ''C''"
    by (simp add: numeral_2_eq_2)
  show ?thesis
    using producers_cancellation
      [of "?world 2" 2 ?next ?world 5 2 "[''A'', ''B'', ''C'']" Inr "''C''" ?action]
    by (simp add: select_send_def key_send_def key_result_def two nth numeral_2_eq_2
        numeral_3_eq_3)
qed

text \<open>
  The claim as the spec words it fails twice. In \<open>listResToChan\<close> the signal has fired
  before the first send, the channel has room and the select picks the send each time:
  three items are sent and the generator is called four times. In \<open>perKeyActionToChan\<close>
  the signal has fired before the first send and the select would pick it, but the
  strings do not parse and their results are sent outside the select: all three are
  sent.
\<close>

theorem producers_cancellation_counterexample:
  "listResToChan 5
     (\<lambda>k. if k < 3 then Some \<lparr>Status = StatusOk, ErrorMsg = [], Key = Some k, Size = 1,
                               FilePath = ''f'', Offset = 0\<rparr> else None)
     (\<lambda>k. \<lparr>chan_ready = True, ctx_done = True, pick_send = True\<rparr>)
   = Some (Exited
       \<lparr>sent =
          [Some \<lparr>Status = StatusOk, ErrorMsg = [], Key = Some 0, Size = 1,
                 FilePath = ''f'', Offset = 0\<rparr>,
           Some \<lparr>Status = StatusOk, ErrorMsg = [], Key = Some 1, Size = 1,
                 FilePath = ''f'', Offset = 0\<rparr>,
           Some \<lparr>Status = StatusOk, ErrorMsg = [], Key = Some 2, Size = 1,
                 FilePath = ''f'', Offset = 0\<rparr>],
        calls = [(), (), (), ()], closes = 1\<rparr>)
   \<and> perKeyActionToChan (\<lambda>s. Inl ''selected encoding not supported'')
       [''x'', ''y'', ''z'']
       (\<lambda>c :: string. None)
       (\<lambda>k. \<lparr>chan_ready = True, ctx_done = True, pick_send = False\<rparr>)
   = Exited
       \<lparr>sent =
          [Some \<lparr>Status = StatusOtherError, ErrorMsg = ''x: selected encoding not supported'',
                 Key = None, Size = 0, FilePath = [], Offset = 0\<rparr>,
           Some \<lparr>Status = StatusOtherError, ErrorMsg = ''y: selected encoding not supported'',
                 Key = None, Size = 0, FilePath = [], Offset = 0\<rparr>,
           Some \<lparr>Status = StatusOtherError, ErrorMsg = ''z: selected encoding not supported'',
                 Key = None, Size = 0, FilePath = [], Offset = 0\<rparr>],
        calls = [], closes = 1\<rparr>
   \<and> \<not> (ctx_done \<lparr>chan_ready = True, ctx_done = True, pick_send = True\<rparr> \<longrightarrow>
          length (sent (state_of (the (listResToChan 5
            (\<lambda>k. if k < 3 then Some \<lparr>Status = StatusOk, ErrorMsg = [], Key = Some k, Size = 1,
                                      FilePath = ''f'', Offset = 0\<rparr> else None)
            (\<lambda>k. \<lparr>chan_ready = True, ctx_done = True, pick_send = True\<rparr>))))) \<le> 1)
   \<and> \<not> (ctx_done \<lparr>chan_ready = True, ctx_done = True, pick_send = False\<rparr> \<longrightarrow>
          length (sent (state_of (perKeyActionToChan (\<lambda>s. Inl ''selected encoding not supported'')
            [''x'', ''y'', ''z'']
            (\<lambda>c :: string. None)
            (\<lambda>k. \<lparr>chan_ready = True, ctx_done = True, pick_send = False\<rparr>)))) \<le> 1)"
  by (simp add: listResToChan_def perKeyActionToChan_def make_chan_def select_send_def
      plain_send_def parse_error_res_def eval_nat_numeral)






section \<open>Properties of the ls bridge\<close>

lemma ls_items_Cons:
  "ls_items FormatLong (r # rs) = Next # ls_line FormatLong r # ls_items FormatLong rs"
  by (simp add: ls_items_def)

lemma ls_items_Nil: "ls_items FormatLong [] = []"
  by (simp add: ls_items_def)

lemma soft_failure_Cons: "soft_failure (r # rs) \<longleftrightarrow> ErrorMsg r \<noteq> [] \<or> soft_failure rs"
  by (simp add: soft_failure_def)

lemma soft_failure_Nil: "\<not> soft_failure []"
  by (simp add: soft_failure_def)

text \<open>While the pulls succeed with results, the loop prints one line for each and
  remembers whether one of them carried an error message.\<close>

lemma ls_loop_run:
  "\<forall>i < length rs. res_Next res (k + i) = Inl (ListResPtr (Some (rs ! i))) \<Longrightarrow>
   ls_loop (length rs + fuel) FormatLong res k errors tr =
   ls_loop fuel FormatLong res (k + length rs) (errors \<or> soft_failure rs)
     (tr @ ls_items FormatLong rs)"
proof (induction rs arbitrary: k errors tr)
  case Nil
  then show ?case by (simp add: ls_items_Nil soft_failure_Nil)
next
  case (Cons r rs)
  from Cons.prems have hd: "res_Next res k = Inl (ListResPtr (Some r))"
    by (auto dest: spec [of _ 0])
  have tl: "\<forall>i < length rs. res_Next res (Suc k + i) = Inl (ListResPtr (Some (rs ! i)))"
  proof (intro allI impI)
    fix i assume "i < length rs"
    with Cons.prems have "res_Next res (k + Suc i) = Inl (ListResPtr (Some ((r # rs) ! Suc i)))"
      by (auto dest: spec [of _ "Suc i"])
    then show "res_Next res (Suc k + i) = Inl (ListResPtr (Some (rs ! i)))"
      by simp
  qed
  show ?case
  proof (cases "ErrorMsg r = []")
    case True
    with hd Cons.IH [OF tl, of errors "tr @ [Next, Stdout (FormatLong r @ [CHR 0x0A])]"]
    show ?thesis
      by (simp add: ls_items_Cons soft_failure_Cons ls_line_def)
  next
    case False
    with hd Cons.IH [OF tl, of True "tr @ [Next, Stderr (ErrorMsg r @ [CHR 0x0A])]"]
    show ?thesis
      by (simp add: ls_items_Cons soft_failure_Cons ls_line_def)
  qed
qed

lemma ls_loop_broke:
  assumes "\<forall>i < length rs. res_Next res i = Inl (ListResPtr (Some (rs ! i)))"
    and "res_Next res (length rs) = Inr err"
    and "length rs < fuel"
  shows "ls_loop fuel FormatLong res 0 False [] =
         Some (Broke err (soft_failure rs) (ls_items FormatLong rs @ [Next]))"
proof -
  from assms(3) obtain f where f: "fuel = length rs + Suc f"
    by (auto simp: less_iff_Suc_add)
  have "\<forall>i < length rs. res_Next res (0 + i) = Inl (ListResPtr (Some (rs ! i)))"
    using assms(1) by simp
  from ls_loop_run [OF this, of "Suc f" FormatLong False "[]"] assms(2)
  show ?thesis by (simp add: f)
qed

lemma stderr_lines_append: "stderr_lines (xs @ ys) = stderr_lines xs @ stderr_lines ys"
  by (induction xs rule: stderr_lines.induct) simp_all

lemma stdout_lines_append: "stdout_lines (xs @ ys) = stdout_lines xs @ stdout_lines ys"
  by (induction xs rule: stdout_lines.induct) simp_all

lemma set_errors_append: "set_errors (xs @ ys) = set_errors xs @ set_errors ys"
  by (induction xs rule: set_errors.induct) simp_all

lemma stderr_lines_items:
  "stderr_lines (ls_items FormatLong rs) =
   map (\<lambda>r. ErrorMsg r @ [CHR 0x0A]) (filter (\<lambda>r. ErrorMsg r \<noteq> []) rs)"
  by (induction rs) (simp_all add: ls_items_Nil ls_items_Cons ls_line_def)

lemma stdout_lines_items:
  "stdout_lines (ls_items FormatLong rs) =
   map (\<lambda>r. FormatLong r @ [CHR 0x0A]) (filter (\<lambda>r. ErrorMsg r = []) rs)"
  by (induction rs) (simp_all add: ls_items_Nil ls_items_Cons ls_line_def)

lemma set_errors_items: "set_errors (ls_items FormatLong rs) = []"
  by (induction rs) (simp_all add: ls_items_Nil ls_items_Cons ls_line_def)

lemma count_Next_items: "count_list (ls_items FormatLong rs) Next = length rs"
  by (induction rs) (simp_all add: ls_items_Nil ls_items_Cons ls_line_def)

text \<open>The whole goroutine on a stream that yields the results \<open>rs\<close> and then fails a
  pull with \<open>err\<close>.\<close>

lemma ls_PostRun_run:
  assumes "\<forall>i < length rs. res_Next res i = Inl (ListResPtr (Some (rs ! i)))"
    and "res_Next res (length rs) = Inr err"
    and "length rs < fuel"
  shows "lsFileStore_PostRun fuel FormatLong res =
         (case after_loop res err of
            None \<Rightarrow> Some (ls_items FormatLong rs @ [Next, Panic, Close])
          | Some set_err \<Rightarrow>
              Some (ls_items FormatLong rs @ [Next] @ set_err @ ls_aggregate rs @ [Close]))"
  unfolding lsFileStore_PostRun_def ls_loop_broke [OF assms]
  by (simp add: ls_aggregate_def split: option.splits)

text \<open>
  C8. When the stream yields the results \<open>rs\<close> and then ends with end-of-data, the
  bridge pulls every one of them and prints, in order, the error message of each result
  that carries one to stderr and the long format of each other result to stdout; it then
  reports the error "errors while displaying some entries" with code \<open>ErrNormal\<close>
  exactly when some result carried an error message, reports nothing else, and closes
  the emitter.
\<close>

theorem ls_PostRun_soft_failures:
  assumes "\<forall>i < length rs. res_Next res i = Inl (ListResPtr (Some (rs ! i)))"
    and "res_Next res (length rs) = Inr err"
    and "err_ident err = io_EOF \<or> err_Error err = ''EOF''"
    and "length rs < fuel"
  shows "\<exists>tr. lsFileStore_PostRun fuel FormatLong res = Some tr
       \<and> tr = ls_items FormatLong rs @ [Next] @ ls_aggregate rs @ [Close]
       \<and> count_list tr Next = Suc (length rs)
       \<and> stderr_lines tr = map (\<lambda>r. ErrorMsg r @ [CHR 0x0A]) (filter (\<lambda>r. ErrorMsg r \<noteq> []) rs)
       \<and> stdout_lines tr = map (\<lambda>r. FormatLong r @ [CHR 0x0A]) (filter (\<lambda>r. ErrorMsg r = []) rs)
       \<and> set_errors tr =
           (if list_ex (\<lambda>r. ErrorMsg r \<noteq> []) rs
            then [(ErrString ''errors while displaying some entries'', ErrNormal)] else [])"
proof -
  define tr :: "unit effect list"
    where "tr = ls_items FormatLong rs @ [Next] @ ls_aggregate rs @ [Close]"
  have a: "after_loop res err = Some []"
    using assms(3) by (auto simp: after_loop_def)
  have run: "lsFileStore_PostRun fuel FormatLong res = Some tr"
    unfolding ls_PostRun_run [OF assms(1,2,4)] a tr_def by simp
  have n: "count_list tr Next = Suc (length rs)"
    by (simp add: tr_def count_Next_items ls_aggregate_def)
  have e: "stderr_lines tr = map (\<lambda>r. ErrorMsg r @ [CHR 0x0A]) (filter (\<lambda>r. ErrorMsg r \<noteq> []) rs)"
    by (simp add: tr_def stderr_lines_append stderr_lines_items ls_aggregate_def)
  have out: "stdout_lines tr = map (\<lambda>r. FormatLong r @ [CHR 0x0A]) (filter (\<lambda>r. ErrorMsg r = []) rs)"
    by (simp add: tr_def stdout_lines_append stdout_lines_items ls_aggregate_def)
  have s: "set_errors tr =
           (if list_ex (\<lambda>r. ErrorMsg r \<noteq> []) rs
            then [(ErrString ''errors while displaying some entries'', ErrNormal)] else [])"
    by (simp add: tr_def set_errors_append set_errors_items ls_aggregate_def soft_failure_def)
  from run n e out s tr_def show ?thesis by blast
qed

text \<open>The spec's example: four successes and one soft failure give four records on
  stdout, one diagnostic on stderr and the aggregate error at the end.\<close>

theorem ls_PostRun_soft_failures_witness:
  "lsFileStore_PostRun 6 FilePath
     \<lparr>res_Length = 0,
      res_Next = (\<lambda>k. if k < 5 then
          Inl (ListResPtr (Some
            (if k = 2 then \<lparr>Status = StatusOtherError, ErrorMsg = ''bad: no such file'',
                             Key = None, Size = 0, FilePath = [], Offset = 0\<rparr>
             else \<lparr>Status = StatusOk, ErrorMsg = [], Key = Some k, Size = 1,
                    FilePath = ''f'', Offset = 0\<rparr>)))
        else Inr \<lparr>err_ident = io_EOF, err_Error = ''EOF''\<rparr>),
      res_Error = None\<rparr>
   = Some [Next, Stdout [CHR ''f'', CHR 0x0A], Next, Stdout [CHR ''f'', CHR 0x0A],
           Next, Stderr (''bad: no such file'' @ [CHR 0x0A]),
           Next, Stdout [CHR ''f'', CHR 0x0A], Next, Stdout [CHR ''f'', CHR 0x0A],
           Next, SetError (ErrString ''errors while displaying some entries'') ErrNormal,
           Close]"
proof -
  let ?item = "\<lambda>k :: nat.
      if k = 2 then \<lparr>Status = StatusOtherError, ErrorMsg = ''bad: no such file'',
                       Key = None, Size = 0, FilePath = [], Offset = (0 :: uint64)\<rparr>
      else \<lparr>Status = StatusOk, ErrorMsg = [], Key = Some k, Size = 1,
             FilePath = ''f'', Offset = 0\<rparr>"
  let ?res = "\<lparr>res_Length = 0,
      res_Next = (\<lambda>k. if k < 5 then Inl (ListResPtr (Some (?item k)))
        else Inr \<lparr>err_ident = io_EOF, err_Error = ''EOF''\<rparr>),
      res_Error = None\<rparr>"
  let ?rs = "map ?item [0, 1, 2, 3, 4]"
  have nth: "\<forall>i < length ?rs. res_Next ?res i = Inl (ListResPtr (Some (?rs ! i)))"
    by (simp add: less_Suc_eq eval_nat_numeral)
  have len: "length ?rs = 5" by simp
  show ?thesis
    using ls_PostRun_soft_failures
      [of ?rs ?res "\<lparr>err_ident = io_EOF, err_Error = ''EOF''\<rparr>" 6 FilePath, OF nth]
    by (simp add: ls_items_def ls_line_def ls_aggregate_def soft_failure_def)
qed

text \<open>
  C9. When a pull fails after the results \<open>rs\<close>, the loop is left at once, with that
  error and after exactly one pull more than there were results. What is then reported
  for the pull depends on the error alone: nothing for end-of-data (the error is
  \<open>io.EOF\<close> or its text is "EOF"); the message and code of \<open>res.Error()\<close> for
  \<open>cmds.ErrRcvdError\<close>; the error itself with code \<open>ErrNormal\<close> for any other error.
  The aggregate error of the soft failures, if any, follows, and the emitter is closed.
\<close>

theorem ls_PostRun_pull_failure:
  assumes "\<forall>i < length rs. res_Next res i = Inl (ListResPtr (Some (rs ! i)))"
    and "res_Next res (length rs) = Inr err"
    and "length rs < fuel"
  shows "ls_loop fuel FormatLong res 0 False [] =
           Some (Broke err (soft_failure rs) (ls_items FormatLong rs @ [Next]))
       \<and> count_list (ls_items FormatLong rs @ [Next]) Next = Suc (length rs)
       \<and> (err_ident err = io_EOF \<or> err_Error err = ''EOF'' \<longrightarrow>
            lsFileStore_PostRun fuel FormatLong res =
            Some (ls_items FormatLong rs @ [Next] @ ls_aggregate rs @ [Close]))
       \<and> (\<not> (err_ident err = io_EOF \<or> err_Error err = ''EOF'') \<and> err_ident err = ErrRcvdError \<longrightarrow>
            (\<forall>e. res_Error res = Some e \<longrightarrow>
              lsFileStore_PostRun fuel FormatLong res =
              Some (ls_items FormatLong rs @ [Next, SetError (ErrString (Message e)) (Code e)]
                    @ ls_aggregate rs @ [Close])))
       \<and> (\<not> (err_ident err = io_EOF \<or> err_Error err = ''EOF'') \<and> err_ident err \<noteq> ErrRcvdError \<longrightarrow>
            lsFileStore_PostRun fuel FormatLong res =
            Some (ls_items FormatLong rs @ [Next, SetError (ErrValue err) ErrNormal]
                  @ ls_aggregate rs @ [Close]))"
  using ls_loop_broke [OF assms, of FormatLong] ls_PostRun_run [OF assms, of FormatLong]
  by (auto simp: after_loop_def count_Next_items)

text \<open>Three streams of one good result followed by a failed pull: end-of-data, a
  received remote error, and a broken transport.\<close>

theorem ls_PostRun_pull_failure_witness:
  "lsFileStore_PostRun 2 FilePath
     \<lparr>res_Length = 0,
      res_Next = (\<lambda>k. if k < 1 then
          Inl (ListResPtr (Some \<lparr>Status = StatusOk, ErrorMsg = [], Key = Some k, Size = 1,
                                 FilePath = ''f'', Offset = 0\<rparr>))
        else Inr \<lparr>err_ident = io_EOF, err_Error = ''EOF''\<rparr>),
      res_Error = None\<rparr>
   = Some [Next, Stdout [CHR ''f'', CHR 0x0A], Next, Close]
   \<and> lsFileStore_PostRun 2 FilePath
     \<lparr>res_Length = 0,
      res_Next = (\<lambda>k. if k < 1 then
          Inl (ListResPtr (Some \<lparr>Status = StatusOk, ErrorMsg = [], Key = Some k, Size = 1,
                                 FilePath = ''f'', Offset = 0\<rparr>))
        else Inr \<lparr>err_ident = ErrRcvdError, err_Error = ''received command error''\<rparr>),
      res_Error = Some \<lparr>Message = ''filestore not enabled'', Code = ErrOther 1\<rparr>\<rparr>
   = Some [Next, Stdout [CHR ''f'', CHR 0x0A], Next,
           SetError (ErrString ''filestore not enabled'') (ErrOther 1), Close]
   \<and> lsFileStore_PostRun 2 FilePath
     \<lparr>res_Length = 0,
      res_Next = (\<lambda>k. if k < 1 then
          Inl (ListResPtr (Some \<lparr>Status = StatusOk, ErrorMsg = [], Key = Some k, Size = 1,
                                 FilePath = ''f'', Offset = 0\<rparr>))
        else Inr \<lparr>err_ident = other_error, err_Error = ''unexpected EOF''\<rparr>),
      res_Error = None\<rparr>
   = Some [Next, Stdout [CHR ''f'', CHR 0x0A], Next,
           SetError (ErrValue \<lparr>err_ident = other_error, err_Error = ''unexpected EOF''\<rparr>)
             ErrNormal,
           Close]"
proof -
  let ?ok = "\<lparr>Status = StatusOk, ErrorMsg = [], Key = Some (0 :: nat), Size = 1,
              FilePath = ''f'', Offset = (0 :: uint64)\<rparr>"
  let ?res = "\<lambda>err re. \<lparr>res_Length = 0,
      res_Next = (\<lambda>k. if k < 1 then
          Inl (ListResPtr (Some \<lparr>Status = StatusOk, ErrorMsg = [], Key = Some k, Size = 1,
                                 FilePath = ''f'', Offset = (0 :: uint64)\<rparr>))
        else Inr err),
      res_Error = re\<rparr>"
  let ?eof = "\<lparr>err_ident = io_EOF, err_Error = ''EOF''\<rparr>"
  let ?rcvd = "\<lparr>err_ident = ErrRcvdError, err_Error = ''received command error''\<rparr>"
  let ?other = "\<lparr>err_ident = other_error, err_Error = ''unexpected EOF''\<rparr>"
  let ?remote = "Some \<lparr>Message = ''filestore not enabled'', Code = ErrOther 1\<rparr>"
  have nth: "\<forall>i < length [?ok]. res_Next (?res err re) i = Inl (ListResPtr (Some ([?ok] ! i)))"
    for err re
    by simp
  show ?thesis
    using ls_PostRun_pull_failure [of "[?ok]" "?res ?eof None" ?eof 2 FilePath, OF nth]
      ls_PostRun_pull_failure [of "[?ok]" "?res ?rcvd ?remote" ?rcvd 2 FilePath, OF nth]
      ls_PostRun_pull_failure [of "[?ok]" "?res ?other None" ?other 2 FilePath, OF nth]
    by (simp add: ls_items_def ls_line_def ls_aggregate_def soft_failure_def)
qed

end
